theory Spec2Isabelle
  imports Complex_Main "HOL-Library.AList" "HOL-Library.Multiset"
begin

section \<open>Interface Poisoning Analyzer: data model\<close>

text \<open>
  The analyzer keeps two Python dictionaries, one of interfaces and one of classes. A
  dictionary is modelled as an association list in insertion order; \<^const>\<open>map_of\<close>
  looks a key up and \<^const>\<open>AList.update\<close> stores a value (in place when the key
  exists, at the end otherwise, as a Python dict does). Python floats are modelled as
  exact rationals, Python integers that only count things as naturals. An exception that
  the interpreter raises is a value: a computation returns \<open>Inl\<close> of the exception or
  \<open>Inr\<close> of its result.
\<close>

datatype error = RecursionError | ZeroDivisionError | KeyError

definition bind_result :: "error + 'a \<Rightarrow> ('a \<Rightarrow> error + 'b) \<Rightarrow> error + 'b" where
  "bind_result m f = (case m of Inl e \<Rightarrow> Inl e | Inr x \<Rightarrow> f x)"

text \<open>Python's true division \<^verbatim>\<open>a / b\<close>.\<close>

definition py_div :: "rat \<Rightarrow> rat \<Rightarrow> error + rat" where
  "py_div a b = (if b = 0 then Inl ZeroDivisionError else Inr (a / b))"

record InterfaceInfo =
  name :: string
  file_path :: string
  methods :: "string list"
  implementations :: "string list"
  usages :: "string list"
  method_calls :: "(string \<times> nat) list"
  extends :: "string list"

text \<open>The dictionary \<^verbatim>\<open>class_info\<close> built by \<^verbatim>\<open>_process_class\<close>; its
  \<^verbatim>\<open>method_calls\<close> entry is never written after creation and is left out.\<close>

record ClassInfo =
  class_name :: string
  class_file_path :: string
  class_implements :: "string list"
  class_extends :: "string option"
  class_methods :: "string list"

text \<open>\<^verbatim>\<open>AnalysisResult\<close>; the field \<^verbatim>\<open>call_graph\<close> is never read or written by
  the analyzer and is left out.\<close>

record AnalysisResult =
  interfaces :: "(string \<times> InterfaceInfo) list"
  classes :: "(string \<times> ClassInfo) list"
  total_classes :: nat

record Analyzer =
  project_path :: string
  result :: AnalysisResult
  max_call_depth :: nat

definition init :: "string \<Rightarrow> Analyzer" where
  "init path =
     \<lparr>project_path = path,
      result = \<lparr>interfaces = [], classes = [], total_classes = 0\<rparr>,
      max_call_depth = 1\<rparr>"

section \<open>Depth of an interface\<close>

text \<open>
  \<^verbatim>\<open>_get_interface_depth(self, iface_name, visited)\<close>. The Python set \<^verbatim>\<open>visited\<close> is
  one mutable object shared by all recursive calls of a walk, so the model threads it:
  each call returns the depth together with the set as the call leaves it.
  \<^verbatim>\<open>depth_loop\<close> is the \<^verbatim>\<open>for parent in iface_info.extends\<close> loop with its
  accumulator \<^verbatim>\<open>max_depth\<close>.

  Every call of the method takes one frame of the interpreter's stack, and the source
  never changes the recursion limit: \<open>frames\<close> is the number of frames that the limit
  still leaves at the call, and a call that finds none raises \<^verbatim>\<open>RecursionError\<close>,
  which nothing in the walk catches. The loop runs in the frame of its method, so
  \<open>depth_loop\<close> takes the number of frames left to the calls it makes.
\<close>

fun get_interface_depth ::
    "Analyzer \<Rightarrow> nat \<Rightarrow> string \<Rightarrow> string set \<Rightarrow> error + nat \<times> string set"
  and depth_loop ::
    "Analyzer \<Rightarrow> nat \<Rightarrow> string list \<Rightarrow> nat \<Rightarrow> string set \<Rightarrow> error + nat \<times> string set"
where
  "get_interface_depth self frames iface_name visited =
     (if frames = 0 then Inl RecursionError
      else if iface_name \<in> visited then Inr (0, visited)
      else case map_of (interfaces (result self)) iface_name of
        None \<Rightarrow> Inr (1, visited)
      | Some iface_info \<Rightarrow>
          (if extends iface_info = [] then Inr (1, insert iface_name visited)
           else case depth_loop self (frames - 1) (extends iface_info) 0
                       (insert iface_name visited) of
                  Inl e \<Rightarrow> Inl e
                | Inr (max_depth, visited') \<Rightarrow> Inr (max_depth + 1, visited')))"
| "depth_loop self frames [] max_depth visited = Inr (max_depth, visited)"
| "depth_loop self frames (parent # parents) max_depth visited =
     (case get_interface_depth self frames parent visited of
        Inl e \<Rightarrow> Inl e
      | Inr (depth, visited') \<Rightarrow> depth_loop self frames parents (max max_depth depth) visited')"

declare get_interface_depth.simps [simp del]

text \<open>The number of stored interface names that a walk has not visited yet.\<close>

definition unvisited :: "Analyzer \<Rightarrow> string set \<Rightarrow> nat" where
  "unvisited self visited = card (fst ` set (interfaces (result self)) - visited)"


lemma unvisited_insert:
  "map_of (interfaces (result self)) n = Some i \<Longrightarrow> n \<notin> v \<Longrightarrow>
     unvisited self (insert n v) < unvisited self v"
proof -
  assume look: "map_of (interfaces (result self)) n = Some i" and fresh: "n \<notin> v"
  let ?K = "fst ` set (interfaces (result self))"
  from look have "n \<in> ?K"
    by (metis fst_conv image_eqI map_of_SomeD)
  with fresh have "n \<in> ?K - v" by simp
  moreover have "n \<notin> ?K - insert n v" by simp
  moreover have "?K - insert n v \<subseteq> ?K - v" by auto
  ultimately have "?K - insert n v \<subset> ?K - v" by blast
  then show ?thesis
    unfolding unvisited_def by (intro psubset_card_mono) auto
qed

section \<open>The reference recursion of the depth\<close>

text \<open>
  The depth as the specification words it: a name already in the visited set of this walk
  contributes 0, a name absent from the store contributes 1, an interface without extends
  edges contributes 1, and otherwise the result is 1 plus the maximum over the extends
  edges, each parent taking the visited set extended by the current name (and by nothing
  else).
\<close>

function depth_reference :: "Analyzer \<Rightarrow> string \<Rightarrow> string set \<Rightarrow> nat" where
  "depth_reference self iface_name visited =
     (if iface_name \<in> visited then 0
      else case map_of (interfaces (result self)) iface_name of
        None \<Rightarrow> 1
      | Some iface_info \<Rightarrow>
          (if extends iface_info = [] then 1
           else 1 + Max (set (map (\<lambda>parent. depth_reference self parent (insert iface_name visited))
                                  (extends iface_info)))))"
  by pat_completeness auto
termination
  by (relation "measure (\<lambda>(self, n, vis). unvisited self vis)")
     (auto simp: unvisited_insert)

declare depth_reference.simps [simp del]

text \<open>
  The unused method rate as the specification words it: the number of positions of the
  declared method sequence \<open>M\<close> whose method has call count 0, over the length of \<open>M\<close>,
  and 0 for an empty \<open>M\<close>. A repeated name is counted at each of its positions.
\<close>

definition umr_reference :: "string list \<Rightarrow> (string \<Rightarrow> nat option) \<Rightarrow> rat" where
  "umr_reference M calls =
     (if length M = 0 then 0
      else of_nat (length (filter (\<lambda>m. calls m = Some 0) M)) / of_nat (length M))"

section \<open>The index of one interface\<close>

text \<open>The class constants \<^verbatim>\<open>ALPHA\<close>, \<^verbatim>\<open>BETA\<close>, \<^verbatim>\<open>GAMMA\<close>, \<^verbatim>\<open>DELTA\<close>.\<close>

definition ALPHA :: rat where "ALPHA = 25 / 100"
definition BETA :: rat where "BETA = 15 / 100"
definition GAMMA :: rat where "GAMMA = 25 / 100"
definition DELTA :: rat where "DELTA = 35 / 100"

text \<open>
  Python's \<^verbatim>\<open>round(x, ndigits)\<close>: the multiple of \<open>10\<^sup>-\<^sup>n\<close> nearest to \<open>x\<close>. The source
  rounds the double that its float arithmetic has computed, not the exact value; the two
  differ by a representation error many orders of magnitude below \<open>tie_band\<close>. Where the
  exact value lies halfway between two multiples, or within \<open>tie_band\<close> of halfway (in
  units of the last digit kept), the double lies on one side or the other, or is halfway
  itself and goes to the even multiple: the result is one of the two neighbours, and
  which one is not derived here. The parameter \<open>up\<close> stands for that outcome of the
  call: it says whether the result is the upper neighbour.
\<close>

definition tie_band :: rat where
  "tie_band = 1 / 1000000"

definition round_nearest :: "bool \<Rightarrow> rat \<Rightarrow> int" where
  "round_nearest up y =
     (let f = \<lfloor>y\<rfloor>; d = y - of_int f
      in if d < 1 / 2 - tie_band then f else if 1 / 2 + tie_band < d then f + 1
         else if up then f + 1 else f)"

definition py_round :: "bool \<Rightarrow> rat \<Rightarrow> nat \<Rightarrow> rat" where
  "py_round up x ndigits = of_int (round_nearest up (x * 10 ^ ndigits)) / 10 ^ ndigits"

text \<open>The dictionary returned by \<^verbatim>\<open>calculate_ipi\<close>.\<close>

record IpiResult =
  interface :: string
  IC :: nat
  SIR :: rat
  IU :: nat
  UUR :: rat
  total_methods :: nat
  unused_methods :: nat
  UMR :: rat
  CallDepth :: nat
  NCD :: rat
  IPI :: rat

text \<open>The local variables of \<^verbatim>\<open>calculate_ipi\<close>, each as the source computes it.\<close>

definition sir_of :: "InterfaceInfo \<Rightarrow> error + rat" where
  "sir_of iface =
     (let ic = length (implementations iface)
      in if ic > 0 then py_div 1 (of_nat ic) else Inr 1)"

definition uur_of :: "Analyzer \<Rightarrow> InterfaceInfo \<Rightarrow> error + rat" where
  "uur_of self iface =
     (let iu = length (usages iface);
          total = max (total_classes (result self)) 1
      in py_div (of_nat iu) (of_nat total))"

text \<open>\<^verbatim>\<open>sum(1 for m, count in iface.method_calls.items() if count == 0)\<close>\<close>

definition count_unused :: "InterfaceInfo \<Rightarrow> nat" where
  "count_unused iface = length (filter (\<lambda>(m, count). count = 0) (method_calls iface))"

definition umr_of :: "InterfaceInfo \<Rightarrow> error + rat" where
  "umr_of iface =
     (let n = length (methods iface)
      in if n > 0 then py_div (of_nat (count_unused iface)) (of_nat n) else Inr 0)"

text \<open>\<^verbatim>\<open>cd = self._get_interface_depth(interface_name, set())\<close>: the visited set of
  the query is fresh and is dropped after the call.\<close>

definition call_depth_of :: "Analyzer \<Rightarrow> nat \<Rightarrow> string \<Rightarrow> error + nat" where
  "call_depth_of self frames interface_name =
     (case get_interface_depth self frames interface_name {} of
        Inl e \<Rightarrow> Inl e
      | Inr (depth, visited) \<Rightarrow> Inr depth)"

definition ncd_of :: "Analyzer \<Rightarrow> nat \<Rightarrow> error + rat" where
  "ncd_of self cd =
     (if max_call_depth self > 1
      then py_div (of_nat cd - 1) (of_nat (max_call_depth self) - 1)
      else Inr 0)"

definition ipi_of :: "rat \<Rightarrow> rat \<Rightarrow> rat \<Rightarrow> rat \<Rightarrow> rat" where
  "ipi_of sir uur umr ncd = ALPHA * sir + BETA * (1 - uur) + GAMMA * umr + DELTA * ncd"

text \<open>
  The values \<open>(sir, uur, umr, cd, ncd, ipi)\<close> in the order in which the body of
  \<^verbatim>\<open>calculate_ipi\<close> computes them; the first exception ends the computation.
\<close>

definition metrics_of ::
  "Analyzer \<Rightarrow> nat \<Rightarrow> string \<Rightarrow> InterfaceInfo \<Rightarrow> error + rat \<times> rat \<times> rat \<times> nat \<times> rat \<times> rat" where
  "metrics_of self frames interface_name iface =
     bind_result (sir_of iface) (\<lambda>sir.
     bind_result (uur_of self iface) (\<lambda>uur.
     bind_result (umr_of iface) (\<lambda>umr.
     bind_result (call_depth_of self frames interface_name) (\<lambda>cd.
     bind_result (ncd_of self cd) (\<lambda>ncd.
     Inr (sir, uur, umr, cd, ncd, ipi_of sir uur umr ncd))))))"

text \<open>The value of the local variable \<^verbatim>\<open>ipi\<close> before it is rounded into the record.\<close>

definition exact_ipi :: "nat \<Rightarrow> string \<Rightarrow> Analyzer \<Rightarrow> error + rat option" where
  "exact_ipi frames interface_name self =
     (if interface_name \<notin> fst ` set (interfaces (result self)) then Inr None
      else case map_of (interfaces (result self)) interface_name of
        None \<Rightarrow> Inl KeyError
      | Some iface \<Rightarrow>
          (case metrics_of self frames interface_name iface of
             Inl e \<Rightarrow> Inl e
           | Inr (sir, uur, umr, cd, ncd, ipi) \<Rightarrow> Inr (Some ipi)))"

text \<open>
  \<^verbatim>\<open>calculate_ipi(self, interface_name)\<close>, as a method on the analyzer's state: it
  returns the record, \<^verbatim>\<open>None\<close> or the exception it raises, together with the state it
  leaves. The membership test comes first; the subscription
  \<^verbatim>\<open>self.result.interfaces[interface_name]\<close> after it raises \<^verbatim>\<open>KeyError\<close> on a missing
  key. The parameter \<open>ties\<close> gives, for an interface and a field of its record, the
  outcome of the call of \<^verbatim>\<open>round\<close> for that field when its value is near halfway.
\<close>

definition calculate_ipi ::
  "(string \<Rightarrow> string \<Rightarrow> bool) \<Rightarrow> nat \<Rightarrow> string \<Rightarrow> Analyzer
     \<Rightarrow> (error + IpiResult option) \<times> Analyzer" where
  "calculate_ipi ties frames interface_name self =
     (if interface_name \<notin> fst ` set (interfaces (result self)) then (Inr None, self)
      else case map_of (interfaces (result self)) interface_name of
        None \<Rightarrow> (Inl KeyError, self)
      | Some iface \<Rightarrow>
          (case metrics_of self frames interface_name iface of
             Inl e \<Rightarrow> (Inl e, self)
           | Inr (sir, uur, umr, cd, ncd, ipi) \<Rightarrow>
               (Inr (Some \<lparr>interface = interface_name,
                            IC = length (implementations iface),
                            SIR = py_round (ties interface_name ''SIR'') sir 3,
                            IU = length (usages iface),
                            UUR = py_round (ties interface_name ''UUR'') uur 3,
                            total_methods = length (methods iface),
                            unused_methods = count_unused iface,
                            UMR = py_round (ties interface_name ''UMR'') umr 3,
                            CallDepth = cd,
                            NCD = py_round (ties interface_name ''NCD'') ncd 3,
                            IPI = py_round (ties interface_name ''IPI'') ipi 3\<rparr>),
                self)))"

section \<open>The report\<close>





text \<open>The three list comprehensions \<^verbatim>\<open>high\<close>, \<^verbatim>\<open>medium\<close>, \<^verbatim>\<open>low\<close>.\<close>

definition high :: "IpiResult list \<Rightarrow> IpiResult list" where
  "high results = filter (\<lambda>r. IPI r > 7 / 10) results"

definition medium :: "IpiResult list \<Rightarrow> IpiResult list" where
  "medium results = filter (\<lambda>r. 4 / 10 \<le> IPI r \<and> IPI r \<le> 7 / 10) results"

definition low :: "IpiResult list \<Rightarrow> IpiResult list" where
  "low results = filter (\<lambda>r. IPI r < 4 / 10) results"


section \<open>Ingestion and resolution\<close>

text \<open>
  What the parser \<^verbatim>\<open>javalang\<close> hands over. A type reference of the syntax tree is
  \<open>Some n\<close> when it has an attribute \<^verbatim>\<open>name\<close> and \<open>None\<close> otherwise.
\<close>

record InterfaceNode =
  inode_name :: string
  inode_methods :: "string list"
  inode_extends :: "string option list"

record ClassNode =
  cnode_name :: string
  cnode_implements :: "string option list"
  cnode_extends :: "string option option"
  cnode_methods :: "string list"

text \<open>
  The collaborators outside the analyzer: the Java files found under the project path;
  the parse of a file (\<open>None\<close> when opening or parsing raises), as the interface
  declarations and the class declarations of its tree; the text of a file (\<open>None\<close> when
  opening it raises); whether one of the three type-reference patterns of an interface
  name matches a text; and the number of matches of the call pattern of a method name in
  a text.
\<close>

record Project =
  java_files :: "string list"
  parse :: "string \<Rightarrow> (InterfaceNode list \<times> ClassNode list) option"
  read_file :: "string \<Rightarrow> string option"
  references_type :: "string \<Rightarrow> string \<Rightarrow> bool"
  count_calls :: "string \<Rightarrow> string \<Rightarrow> nat"

definition set_interfaces :: "(string \<times> InterfaceInfo) list \<Rightarrow> Analyzer \<Rightarrow> Analyzer" where
  "set_interfaces ifs self = self\<lparr>result := (result self)\<lparr>interfaces := ifs\<rparr>\<rparr>"

definition set_classes :: "(string \<times> ClassInfo) list \<Rightarrow> Analyzer \<Rightarrow> Analyzer" where
  "set_classes cs self = self\<lparr>result := (result self)\<lparr>classes := cs\<rparr>\<rparr>"

text \<open>\<^verbatim>\<open>_process_interface(self, node, file_path)\<close>\<close>

definition add_method :: "string \<Rightarrow> InterfaceInfo \<Rightarrow> InterfaceInfo" where
  "add_method m info =
     info\<lparr>methods := methods info @ [m],
          method_calls := AList.update m 0 (method_calls info)\<rparr>"

definition process_interface :: "InterfaceNode \<Rightarrow> string \<Rightarrow> Analyzer \<Rightarrow> Analyzer" where
  "process_interface node path self =
     (let info0 = \<lparr>name = inode_name node, file_path = path, methods = [],
                    implementations = [], usages = [], method_calls = [], extends = []\<rparr>;
          info1 = fold add_method (inode_methods node) info0;
          info2 = info1\<lparr>extends := concat (map (\<lambda>ext. case ext of None \<Rightarrow> [] | Some n \<Rightarrow> [n])
                                                 (inode_extends node))\<rparr>
      in set_interfaces (AList.update (inode_name node) info2 (interfaces (result self))) self)"

text \<open>\<^verbatim>\<open>_process_class(self, node, file_path, content)\<close>\<close>

definition process_class :: "ClassNode \<Rightarrow> string \<Rightarrow> Analyzer \<Rightarrow> Analyzer" where
  "process_class node path self =
     (let class_info =
            \<lparr>class_name = cnode_name node, class_file_path = path,
             class_implements = concat (map (\<lambda>impl. case impl of None \<Rightarrow> [] | Some n \<Rightarrow> [n])
                                            (cnode_implements node)),
             class_extends = (case cnode_extends node of None \<Rightarrow> None | Some e \<Rightarrow> e),
             class_methods = cnode_methods node\<rparr>
      in set_classes (AList.update (cnode_name node) class_info (classes (result self))) self)"

text \<open>\<^verbatim>\<open>_parse_file(self, file_path)\<close>: interfaces of the tree first, then its classes.\<close>

definition parse_file :: "Project \<Rightarrow> string \<Rightarrow> Analyzer \<Rightarrow> Analyzer" where
  "parse_file proj path self =
     (case parse proj path of
        None \<Rightarrow> self
      | Some (inodes, cnodes) \<Rightarrow>
          fold (\<lambda>node. process_class node path) cnodes
            (fold (\<lambda>node. process_interface node path) inodes self))"

text \<open>\<^verbatim>\<open>_find_implementations(self)\<close>\<close>

definition add_implementation ::
  "string \<Rightarrow> string \<Rightarrow> (string \<times> InterfaceInfo) list \<Rightarrow> (string \<times> InterfaceInfo) list" where
  "add_implementation cname iface_name ifs =
     (case map_of ifs iface_name of
        None \<Rightarrow> ifs
      | Some info \<Rightarrow>
          AList.update iface_name
            (info\<lparr>implementations := implementations info @ [cname]\<rparr>) ifs)"

definition find_implementations :: "Analyzer \<Rightarrow> Analyzer" where
  "find_implementations self =
     set_interfaces
       (fold (\<lambda>(cname, class_info). fold (add_implementation cname) (class_implements class_info))
             (classes (result self)) (interfaces (result self)))
       self"

text \<open>\<^verbatim>\<open>_find_usages(self)\<close>: a class whose file cannot be read is skipped.\<close>

definition add_usage ::
  "Project \<Rightarrow> string \<Rightarrow> string \<Rightarrow> string \<Rightarrow> (string \<times> InterfaceInfo) list
     \<Rightarrow> (string \<times> InterfaceInfo) list" where
  "add_usage proj content cname iface_name ifs =
     (if references_type proj content iface_name then
        (case map_of ifs iface_name of
           None \<Rightarrow> ifs
         | Some info \<Rightarrow>
             (if cname \<notin> set (usages info)
              then AList.update iface_name (info\<lparr>usages := usages info @ [cname]\<rparr>) ifs
              else ifs))
      else ifs)"

definition class_usages ::
  "Project \<Rightarrow> string \<times> ClassInfo \<Rightarrow> (string \<times> InterfaceInfo) list
     \<Rightarrow> (string \<times> InterfaceInfo) list" where
  "class_usages proj c ifs =
     (case read_file proj (class_file_path (snd c)) of
        None \<Rightarrow> ifs
      | Some content \<Rightarrow> fold (add_usage proj content (fst c)) (map fst ifs) ifs)"

definition find_usages :: "Project \<Rightarrow> Analyzer \<Rightarrow> Analyzer" where
  "find_usages proj self =
     set_interfaces (fold (class_usages proj) (classes (result self)) (interfaces (result self))) self"

text \<open>
  \<^verbatim>\<open>_analyze_method_calls(self)\<close>. The statement
  \<^verbatim>\<open>iface_info.method_calls[method_name] += len(matches)\<close> raises \<^verbatim>\<open>KeyError\<close> on a
  missing key; the exception leaves the loops over the interfaces and methods of the
  current class, keeping what was written before it. The flag returned with the value
  says that the exception was raised.
\<close>

fun bump_calls :: "(string \<Rightarrow> nat) \<Rightarrow> string list \<Rightarrow> (string \<times> nat) list
    \<Rightarrow> (string \<times> nat) list \<times> bool" where
  "bump_calls cnt [] mc = (mc, False)"
| "bump_calls cnt (m # ms) mc =
     (case map_of mc m of
        None \<Rightarrow> (mc, True)
      | Some c \<Rightarrow> bump_calls cnt ms (AList.update m (c + cnt m) mc))"

fun bump_interfaces :: "(string \<Rightarrow> nat) \<Rightarrow> (string \<times> InterfaceInfo) list
    \<Rightarrow> (string \<times> InterfaceInfo) list \<times> bool" where
  "bump_interfaces cnt [] = ([], False)"
| "bump_interfaces cnt ((n, info) # rest) =
     (case bump_calls cnt (methods info) (method_calls info) of
        (mc, raised) \<Rightarrow>
          (if raised then ((n, info\<lparr>method_calls := mc\<rparr>) # rest, True)
           else case bump_interfaces cnt rest of
                  (rest', raised') \<Rightarrow> ((n, info\<lparr>method_calls := mc\<rparr>) # rest', raised')))"

definition class_method_calls ::
  "Project \<Rightarrow> string \<times> ClassInfo \<Rightarrow> (string \<times> InterfaceInfo) list
     \<Rightarrow> (string \<times> InterfaceInfo) list" where
  "class_method_calls proj c ifs =
     (case read_file proj (class_file_path (snd c)) of
        None \<Rightarrow> ifs
      | Some content \<Rightarrow> fst (bump_interfaces (count_calls proj content) ifs))"

definition analyze_method_calls :: "Project \<Rightarrow> Analyzer \<Rightarrow> Analyzer" where
  "analyze_method_calls proj self =
     set_interfaces
       (fold (class_method_calls proj) (classes (result self)) (interfaces (result self))) self"

text \<open>
  \<^verbatim>\<open>_calculate_call_depths(self)\<close>, each query with a fresh visited set and with the
  frames that the recursion limit leaves at the query; an exception of a query ends the
  loop.
\<close>

fun note_depths :: "nat \<Rightarrow> string list \<Rightarrow> Analyzer \<Rightarrow> error + Analyzer" where
  "note_depths frames [] self = Inr self"
| "note_depths frames (iface_name # rest) self =
     (case get_interface_depth self frames iface_name {} of
        Inl e \<Rightarrow> Inl e
      | Inr (depth, visited) \<Rightarrow>
          note_depths frames rest
            (if depth > max_call_depth self then self\<lparr>max_call_depth := depth\<rparr> else self))"

definition calculate_call_depths :: "nat \<Rightarrow> Analyzer \<Rightarrow> error + Analyzer" where
  "calculate_call_depths frames self =
     note_depths frames (map fst (interfaces (result self))) self"

text \<open>
  \<^verbatim>\<open>analyze(self)\<close>, on the analyzer as left by the step before. An exception of the
  depth phase leaves \<^verbatim>\<open>analyze\<close>; nothing in the program catches it.
\<close>

definition analyze :: "nat \<Rightarrow> Project \<Rightarrow> Analyzer \<Rightarrow> error + Analyzer" where
  "analyze frames proj self =
     (let self1 = fold (parse_file proj) (java_files proj) self;
          self2 = find_implementations self1;
          self3 = find_usages proj self2;
          self4 = analyze_method_calls proj self3
      in case calculate_call_depths frames self4 of
           Inl e \<Rightarrow> Inl e
         | Inr self5 \<Rightarrow>
             Inr (self5\<lparr>result := (result self5)
                          \<lparr>total_classes := length (classes (result self5))\<rparr>\<rparr>))"

section \<open>Invariants of the ingestion\<close>

text \<open>
  Properties of the stored interface records that the phases of \<^verbatim>\<open>analyze\<close> establish
  and keep: there are no more call counters than declared methods; before the usage
  phase no usage is recorded; after it the usages of an interface are distinct names of
  stored classes.
\<close>

definition all_infos :: "(InterfaceInfo \<Rightarrow> bool) \<Rightarrow> (string \<times> InterfaceInfo) list \<Rightarrow> bool" where
  "all_infos P ifs = (\<forall>i \<in> snd ` set ifs. P i)"

definition counts_fit :: "InterfaceInfo \<Rightarrow> bool" where
  "counts_fit i = (length (method_calls i) \<le> length (methods i))"

definition unused_yet :: "InterfaceInfo \<Rightarrow> bool" where
  "unused_yet i = (counts_fit i \<and> usages i = [])"

definition usages_among :: "string set \<Rightarrow> InterfaceInfo \<Rightarrow> bool" where
  "usages_among K i = (counts_fit i \<and> distinct (usages i) \<and> set (usages i) \<subseteq> K)"


section \<open>Example projects\<close>

text \<open>
  The default recursion limit of the interpreter is 1000 frames, so a depth query never
  has more than 1000 frames left. The examples are run with that many; none of them
  nests more than three calls, and a depth that is returned does not depend on the
  frames that were left (lemma \<open>depth_more_frames\<close>).
\<close>

definition default_frames :: nat where
  "default_frames = 1000"

text \<open>
  No value that the examples round is near halfway; they are run with the outcome
  \<open>no_ties\<close>, which is never consulted.
\<close>

definition no_ties :: "string \<Rightarrow> string \<Rightarrow> bool" where
  "no_ties interface_name field = False"

text \<open>The analyzer after \<^verbatim>\<open>analyze\<close> on a project (a fresh analyzer if it raised).\<close>

definition analyzed :: "Project \<Rightarrow> Analyzer" where
  "analyzed proj =
     (case analyze default_frames proj (init ''p'') of
        Inl e \<Rightarrow> init ''p''
      | Inr self \<Rightarrow> self)"

text \<open>
  Small projects of one file, used to run the analyzer on concrete input: the file holds
  the given interface and class declarations, its text references no type and calls no
  method.
\<close>

definition iface_node :: "string \<Rightarrow> string list \<Rightarrow> string list \<Rightarrow> InterfaceNode" where
  "iface_node n ms es = \<lparr>inode_name = n, inode_methods = ms, inode_extends = map Some es\<rparr>"

definition class_node :: "string \<Rightarrow> string list \<Rightarrow> ClassNode" where
  "class_node n impls =
     \<lparr>cnode_name = n, cnode_implements = map Some impls, cnode_extends = None,
      cnode_methods = []\<rparr>"

definition one_file :: "InterfaceNode list \<Rightarrow> ClassNode list \<Rightarrow> Project" where
  "one_file inodes cnodes =
     \<lparr>java_files = [''P.java''], parse = (\<lambda>_. Some (inodes, cnodes)),
      read_file = (\<lambda>_. Some []), references_type = (\<lambda>_ _. False),
      count_calls = (\<lambda>_ _. 0)\<rparr>"

text \<open>\<^verbatim>\<open>interface A extends B {}  interface B extends A {}\<close>\<close>

definition two_cycle :: Analyzer where
  "two_cycle =
     analyzed (one_file [iface_node ''A'' [] [''B''], iface_node ''B'' [] [''A'']] [])"

text \<open>\<^verbatim>\<open>interface A extends B, C {}  interface B {}  interface C extends B {}\<close>, and the
  same with the parents of \<open>A\<close> listed as \<open>C, B\<close>.\<close>

definition triangle :: Analyzer where
  "triangle =
     analyzed (one_file [iface_node ''A'' [] [''B'', ''C''], iface_node ''B'' [] [],
                         iface_node ''C'' [] [''B'']] [])"

definition triangle_swapped :: Analyzer where
  "triangle_swapped =
     analyzed (one_file [iface_node ''A'' [] [''C'', ''B''], iface_node ''B'' [] [],
                         iface_node ''C'' [] [''B'']] [])"

text \<open>An interface \<open>I\<close> and a class \<open>Foo\<close> whose implements list names \<open>I\<close> twice, or once.\<close>

definition twice_implemented :: Analyzer where
  "twice_implemented =
     analyzed (one_file [iface_node ''I'' [] []] [class_node ''Foo'' [''I'', ''I'']])"

definition once_implemented :: Analyzer where
  "once_implemented =
     analyzed (one_file [iface_node ''I'' [] []] [class_node ''Foo'' [''I'']])"

text \<open>An interface with two overloads of one method \<open>foo\<close>, called nowhere.\<close>

definition overloaded_methods :: Analyzer where
  "overloaded_methods =
     analyzed (one_file [iface_node ''I'' [''foo'', ''foo''] []] [])"

text \<open>
  A project of one interface \<open>I\<close> with the given methods that extends an interface \<open>J\<close>
  not in the project, and of \<open>n_classes\<close> classes \<open>C\<close>, \<open>CC\<close>, \<open>CCC\<close>, ... each in a file
  of its own; the first \<open>n_impl\<close> of them implement \<open>I\<close>, the text of \<open>C\<close> alone
  references \<open>I\<close> as a type and calls the method \<open>called\<close> once.
\<close>

definition sample_project :: "nat \<Rightarrow> nat \<Rightarrow> string list \<Rightarrow> Project" where
  "sample_project n_classes n_impl ms =
     \<lparr>java_files = ''I.java'' # map (\<lambda>k. replicate (Suc k) CHR ''C'') [0..<n_classes],
      parse = (\<lambda>p. if p = ''I.java'' then Some ([iface_node ''I'' ms [''J'']], [])
                    else Some ([], [class_node p (if length p \<le> n_impl then [''I''] else [])])),
      read_file = (\<lambda>p. Some p),
      references_type = (\<lambda>content iface. content = ''C'' \<and> iface = ''I''),
      count_calls = (\<lambda>content m. if content = ''C'' \<and> m = ''called'' then 1 else 0)\<rparr>"

definition on_boundary :: Analyzer where
  "on_boundary = analyzed (sample_project 3 0 [])"

definition just_above :: Analyzer where
  "just_above = analyzed (sample_project 19 3 [''called'', ''unused''])"

definition on_boundary_record :: IpiResult where
  "on_boundary_record =
     \<lparr>interface = ''I'', IC = 0, SIR = 1, IU = 1, UUR = 333 / 1000, total_methods = 0,
      unused_methods = 0, UMR = 0, CallDepth = 2, NCD = 1, IPI = 7 / 10\<rparr>"

definition just_above_record :: IpiResult where
  "just_above_record =
     \<lparr>interface = ''I'', IC = 3, SIR = 333 / 1000, IU = 1, UUR = 53 / 1000, total_methods = 2,
      unused_methods = 1, UMR = 1 / 2, CallDepth = 2, NCD = 1, IPI = 7 / 10\<rparr>"

text \<open>The record of the interface \<open>I\<close> of \<open>once_implemented\<close>.\<close>

definition at_lower_boundary_record :: IpiResult where
  "at_lower_boundary_record =
     \<lparr>interface = ''I'', IC = 1, SIR = 1, IU = 0, UUR = 0, total_methods = 0,
      unused_methods = 0, UMR = 0, CallDepth = 1, NCD = 0, IPI = 4 / 10\<rparr>"

text \<open>The record of \<open>I\<close> in the store of \<open>on_boundary\<close>.\<close>

definition on_boundary_info :: InterfaceInfo where
  "on_boundary_info =
     \<lparr>name = ''I'', file_path = ''I.java'', methods = [], implementations = [],
      usages = [''C''], method_calls = [], extends = [''J'']\<rparr>"

text \<open>
  The store after parsing a file of \<open>n\<close> interfaces \<open>I\<close>, \<open>II\<close>, \<open>III\<close>, ... of which each
  extends the next (the last one extends an interface that is not declared).
\<close>

definition chain_name :: "nat \<Rightarrow> string" where
  "chain_name k = replicate (Suc k) CHR ''I''"



section \<open>Properties of the depth\<close>

lemma depth_cases [case_names limit seen dangling leaf step]:
  obtains "frames = 0"
  | "frames \<noteq> 0" "n \<in> vis"
  | "frames \<noteq> 0" "n \<notin> vis" "map_of (interfaces (result self)) n = None"
  | info where "frames \<noteq> 0" "n \<notin> vis" "map_of (interfaces (result self)) n = Some info"
      "extends info = []"
  | info where "frames \<noteq> 0" "n \<notin> vis" "map_of (interfaces (result self)) n = Some info"
      "extends info \<noteq> []"
  by (cases "map_of (interfaces (result self)) n") auto

lemma depth_limit: "get_interface_depth self 0 n vis = Inl RecursionError"
  by (simp add: get_interface_depth.simps)

lemma depth_seen: "frames \<noteq> 0 \<Longrightarrow> n \<in> vis \<Longrightarrow> get_interface_depth self frames n vis = Inr (0, vis)"
  by (simp add: get_interface_depth.simps)

lemma depth_dangling:
  "frames \<noteq> 0 \<Longrightarrow> n \<notin> vis \<Longrightarrow> map_of (interfaces (result self)) n = None \<Longrightarrow>
     get_interface_depth self frames n vis = Inr (1, vis)"
  by (simp add: get_interface_depth.simps)

lemma depth_leaf:
  "frames \<noteq> 0 \<Longrightarrow> n \<notin> vis \<Longrightarrow> map_of (interfaces (result self)) n = Some info \<Longrightarrow>
     extends info = [] \<Longrightarrow> get_interface_depth self frames n vis = Inr (1, insert n vis)"
  by (simp add: get_interface_depth.simps)

lemma depth_step:
  "frames \<noteq> 0 \<Longrightarrow> n \<notin> vis \<Longrightarrow> map_of (interfaces (result self)) n = Some info \<Longrightarrow>
     extends info \<noteq> [] \<Longrightarrow>
     get_interface_depth self frames n vis =
       (case depth_loop self (frames - 1) (extends info) 0 (insert n vis) of
          Inl e \<Rightarrow> Inl e
        | Inr (max_depth, visited') \<Rightarrow> Inr (max_depth + 1, visited'))"
  by (simp add: get_interface_depth.simps)





lemma depth_positive:
  assumes "n \<notin> vis" and "get_interface_depth self frames n vis = Inr (d, v)"
  shows "1 \<le> d"
proof (cases rule: depth_cases[where frames=frames and n=n and vis=vis and self=self])
  case limit
  with assms show ?thesis by (simp add: depth_limit)
next
  case seen
  with assms show ?thesis by simp
next
  case dangling
  with assms show ?thesis by (simp add: depth_dangling)
next
  case (leaf info)
  with assms show ?thesis by (simp add: depth_leaf)
next
  case (step info)
  with assms show ?thesis by (auto simp: depth_step split: sum.splits)
qed



lemma depth_cong:
  assumes "interfaces (result a) = interfaces (result b)"
  shows "get_interface_depth a frames n v = get_interface_depth b frames n v"
    and "depth_loop a frames ps m v = depth_loop b frames ps m v"
  using assms
proof (induction a frames n v and a frames ps m v rule: get_interface_depth_depth_loop.induct)
  case (1 self frames iface_name visited)
  show ?case
  proof (cases rule: depth_cases[where frames=frames and n=iface_name and vis=visited and self=self])
    case limit
    then show ?thesis by (simp add: depth_limit)
  next
    case seen
    then show ?thesis by (simp add: depth_seen)
  next
    case dangling
    with "1.prems" show ?thesis by (simp add: depth_dangling)
  next
    case (leaf info)
    with "1.prems" show ?thesis by (simp add: depth_leaf)
  next
    case (step info)
    from step "1.prems" have stepb: "map_of (interfaces (result b)) iface_name = Some info"
      by simp
    from "1.IH"[OF step "1.prems"] show ?thesis
      by (simp add: depth_step[OF step] depth_step[OF step(1,2) stepb step(4)])
  qed
next
  case (2 self frames max_depth visited)
  show ?case by simp
next
  case (3 self frames parent parents max_depth visited)
  show ?case
  proof (cases "get_interface_depth self frames parent visited")
    case (Inl e)
    with "3.IH"(1)[OF "3.prems"] have "get_interface_depth b frames parent visited = Inl e"
      by simp
    with Inl show ?thesis by simp
  next
    case (Inr r)
    obtain d1 v1 where r: "r = (d1, v1)" by (cases r)
    from "3.IH"(1)[OF "3.prems"] Inr r
    have cb: "get_interface_depth b frames parent visited = Inr (d1, v1)" by simp
    from "3.IH"(2)[OF Inr[unfolded r] refl "3.prems"] Inr r cb show ?thesis by simp
  qed
qed


subsection \<open>A chain longer than the recursion limit\<close>

lemma chain_name_inj [simp]: "chain_name i = chain_name j \<longleftrightarrow> i = j"
proof
  assume "chain_name i = chain_name j"
  then have "length (chain_name i) = length (chain_name j)" by simp
  then show "i = j" by (simp add: chain_name_def)
qed simp







text \<open>
  Claim C1, as amended. In a store where interface \<open>a\<close> extends exactly \<open>b\<close> and \<open>b\<close>
  extends exactly \<open>a\<close> (two different names), the depth query (three nested calls, so
  with at least three frames left) terminates and returns 2 for both: the walk from
  \<open>a\<close> counts \<open>a\<close>, then \<open>b\<close>, and the revisited \<open>a\<close> adds 0. The visited set of the
  walk holds both names afterwards.
\<close>

theorem two_cycle_depth:
  assumes "a \<noteq> b"
    and "map_of (interfaces (result self)) a = Some ia" and "extends ia = [b]"
    and "map_of (interfaces (result self)) b = Some ib" and "extends ib = [a]"
    and "3 \<le> frames"
  shows "get_interface_depth self frames a {} = Inr (2, {b, a})
       \<and> get_interface_depth self frames b {} = Inr (2, {a, b})"
proof -
  from assms(6) have f: "frames \<noteq> 0" "frames - 1 \<noteq> 0" "frames - 1 - 1 \<noteq> 0" by simp_all
  have "get_interface_depth self (frames - 1 - 1) a {b, a} = Inr (0, {b, a})"
    using f by (simp add: depth_seen)
  then have "get_interface_depth self (frames - 1) b {a} = Inr (1, {b, a})"
    using f assms by (simp add: depth_step[where info=ib])
  then have a: "get_interface_depth self frames a {} = Inr (2, {b, a})"
    using f assms by (simp add: depth_step[where info=ia])
  have "get_interface_depth self (frames - 1 - 1) b {a, b} = Inr (0, {a, b})"
    using f by (simp add: depth_seen)
  then have "get_interface_depth self (frames - 1) a {b} = Inr (1, {a, b})"
    using f assms by (simp add: depth_step[where info=ia])
  then have "get_interface_depth self frames b {} = Inr (2, {a, b})"
    using f assms by (simp add: depth_step[where info=ib])
  with a show ?thesis by simp
qed

theorem two_cycle_depth_witness:
  "call_depth_of two_cycle default_frames ''A'' = Inr 2
   \<and> call_depth_of two_cycle default_frames ''B'' = Inr 2"
proof -
  let ?ia = "\<lparr>name = ''A'', file_path = ''P.java'', methods = [], implementations = [],
              usages = [], method_calls = [], extends = [''B'']\<rparr>"
  let ?ib = "\<lparr>name = ''B'', file_path = ''P.java'', methods = [], implementations = [],
              usages = [], method_calls = [], extends = [''A'']\<rparr>"
  have ifs: "interfaces (result two_cycle) = [(''A'', ?ia), (''B'', ?ib)]"
    by code_simp
  have "''A'' \<noteq> ''B''" by simp
  moreover have "map_of (interfaces (result two_cycle)) ''A'' = Some ?ia"
    by (simp add: ifs)
  moreover have "extends ?ia = [''B'']" by simp
  moreover have "map_of (interfaces (result two_cycle)) ''B'' = Some ?ib"
    by (simp add: ifs)
  moreover have "extends ?ib = [''A'']" by simp
  moreover have "3 \<le> default_frames" by (simp add: default_frames_def)
  ultimately show ?thesis
    using two_cycle_depth[of "''A''" "''B''" two_cycle ?ia ?ib default_frames]
    by (simp add: call_depth_of_def)
qed

text \<open>
  Claim C1 as stated fails: on the project with the two interfaces \<open>A extends B\<close> and
  \<open>B extends A\<close> the depth of \<open>A\<close> is 2, not 1.
\<close>

theorem two_cycle_depth_is_not_one:
  "\<not> (call_depth_of two_cycle default_frames ''A'' = Inr 1
      \<and> call_depth_of two_cycle default_frames ''B'' = Inr 1)"
  by code_simp

text \<open>
  Claim C3 fails on the code. The visited set is one object shared by the whole walk, so
  a parent visited below an earlier extends edge contributes 0 below a later one. With
  \<open>A extends B, C\<close> and \<open>C extends B\<close> the code returns depth 2 for \<open>A\<close>, the reference
  recursion returns 3 (the chain \<open>A, C, B\<close>), and the code itself returns 3 when the
  parents of \<open>A\<close> are listed as \<open>C, B\<close>.
\<close>

theorem depth_differs_from_reference:
  "call_depth_of triangle default_frames ''A'' = Inr 2
   \<and> depth_reference triangle ''A'' {} = 3
   \<and> call_depth_of triangle_swapped default_frames ''A'' = Inr 3"
  by code_simp


section \<open>Properties of the resolution\<close>

text \<open>
  Claim C4 fails on the code. \<^verbatim>\<open>_find_implementations\<close> appends without looking: a class
  whose implements list names \<open>I\<close> twice is listed twice among the implementations of
  \<open>I\<close>, and a class that names it once is listed once after \<^verbatim>\<open>analyze\<close> and twice
  when the pass is run a second time.
\<close>

theorem implementations_counted_twice:
  "map_option implementations (map_of (interfaces (result twice_implemented)) ''I'')
     = Some [''Foo'', ''Foo'']
   \<and> map_option implementations (map_of (interfaces (result once_implemented)) ''I'')
     = Some [''Foo'']
   \<and> map_option implementations
        (map_of (interfaces (result (find_implementations once_implemented))) ''I'')
     = Some [''Foo'', ''Foo'']"
  by code_simp

section \<open>Properties of the index\<close>

text \<open>
  Claim C5 fails on the code. For an interface declaring \<open>foo\<close> twice, never called, the
  method list is \<open>[foo, foo]\<close> and the call counts are \<open>{foo: 0}\<close>; the code counts the
  unused methods over the counts (1) and the total over the list (2), so UMR is 1/2, where
  the rate of the claim is 2/2 = 1.
\<close>

theorem umr_counts_names_once:
  "map_option (\<lambda>i. (methods i, method_calls i, umr_of i,
                     umr_reference (methods i) (map_of (method_calls i))))
      (map_of (interfaces (result overloaded_methods)) ''I'')
     = Some ([''foo'', ''foo''], [(''foo'', 0)], Inr (1 / 2), 1)
   \<and> map_sum id (map_option (\<lambda>r. (total_methods r, unused_methods r, UMR r)))
        (fst (calculate_ipi no_ties default_frames ''I'' overloaded_methods))
     = Inr (Some (2, 1, 1 / 2))"
  by code_simp


subsection \<open>Outcomes of the index computation\<close>

text \<open>
  Every division of \<^verbatim>\<open>calculate_ipi\<close> is guarded by the test before it, so none of
  the four quotients raises; the depth query is the only step that can.
\<close>

lemma stored_key: "map_of al k = Some v \<Longrightarrow> k \<in> fst ` set al"
  by (metis fst_conv image_eqI map_of_SomeD)













text \<open>
  Claim C9. \<^verbatim>\<open>calculate_ipi\<close> leaves the analyzer as it found it, a second call on the
  state left by the first has the same outcome (the same record, or the same exception),
  and so has the depth query it embeds: nothing the computation writes (the visited set
  of its walk) outlives the call.
\<close>

theorem calculate_ipi_repeatable:
  "snd (calculate_ipi ties frames interface_name self) = self
   \<and> fst (calculate_ipi ties frames interface_name
            (snd (calculate_ipi ties frames interface_name self)))
       = fst (calculate_ipi ties frames interface_name self)
   \<and> get_interface_depth (snd (calculate_ipi ties frames interface_name self)) frames
        interface_name {}
       = get_interface_depth self frames interface_name {}"
proof -
  have "snd (calculate_ipi ties frames interface_name self) = self"
    by (simp add: calculate_ipi_def split: option.splits sum.splits prod.splits)
  then show ?thesis by simp
qed

section \<open>Rounding\<close>

lemma int_less_as_rat: "(a :: int) < b \<longleftrightarrow> (of_int a :: rat) + 1 \<le> of_int b"
proof -
  have "a < b \<longleftrightarrow> a + 1 \<le> b" by linarith
  also have "\<dots> \<longleftrightarrow> (of_int (a + 1) :: rat) \<le> of_int b" by (simp only: of_int_le_iff)
  finally show ?thesis by simp
qed

text \<open>A value off the band around halfway is rounded to the nearest integer, whatever
  \<open>up\<close> is.\<close>

lemma round_nearest_off_tie:
  assumes "of_int k - (1 / 2 - tie_band) < y" and "y < of_int k + (1 / 2 - tie_band)"
  shows "round_nearest up y = k"
proof -
  define f where "f = \<lfloor>y\<rfloor>"
  have band: "0 < tie_band" "tie_band < 1 / 2" by (simp_all add: tie_band_def)
  have lo: "of_int f \<le> y" and hi: "y < of_int f + 1"
    unfolding f_def by linarith+
  have "\<not> k < f" using int_less_as_rat[of k f] lo assms band by linarith
  moreover have "\<not> f + 1 < k"
    using int_less_as_rat[of "f + 1" k] hi assms band by (simp; linarith)
  ultimately consider "f = k" | "f + 1 = k" by linarith
  then show ?thesis
  proof cases
    case 1
    with assms have "y - of_int f < 1 / 2 - tie_band" by simp
    then show ?thesis using 1 by (simp add: round_nearest_def f_def)
  next
    case 2
    then have "of_int k = (of_int f :: rat) + 1" by (metis of_int_1 of_int_add)
    with assms have "1 / 2 + tie_band < y - of_int f" by simp
    moreover from this band have "\<not> y - of_int f < 1 / 2 - tie_band" by linarith
    ultimately show ?thesis using 2 by (simp add: round_nearest_def f_def)
  qed
qed

lemma round_nearest_range:
  "\<lfloor>y\<rfloor> \<le> round_nearest up y \<and> (of_int (round_nearest up y) :: rat) \<le> y + 1 / 2 + tie_band"
proof (cases "y - of_int \<lfloor>y\<rfloor> < 1 / 2 - tie_band")
  case True
  have band: "0 < tie_band" by (simp add: tie_band_def)
  from True have "round_nearest up y = \<lfloor>y\<rfloor>" by (simp add: round_nearest_def)
  moreover have "(of_int \<lfloor>y\<rfloor> :: rat) \<le> y + 1 / 2 + tie_band" using band by linarith
  ultimately show ?thesis by simp
next
  case False
  have band: "0 < tie_band" by (simp add: tie_band_def)
  from False have "round_nearest up y = \<lfloor>y\<rfloor> \<or> round_nearest up y = \<lfloor>y\<rfloor> + 1"
    by (simp add: round_nearest_def Let_def)
  moreover have "(of_int (\<lfloor>y\<rfloor> + 1) :: rat) \<le> y + 1 / 2 + tie_band" using False by simp
  moreover have "(of_int \<lfloor>y\<rfloor> :: rat) \<le> y + 1 / 2 + tie_band" using False band by simp
  ultimately show ?thesis by auto
qed

lemma py_round3_off_tie:
  assumes "of_int k / 1000 - 499999 / 1000000000 < x"
    and "x < of_int k / 1000 + 499999 / 1000000000"
  shows "py_round up x 3 = of_int k / 1000"
proof -
  from assms have "of_int k - (1 / 2 - tie_band) < x * 1000"
    and "x * 1000 < of_int k + (1 / 2 - tie_band)"
    by (simp_all add: field_simps tie_band_def)
  then have "round_nearest up (x * 1000) = k" by (rule round_nearest_off_tie)
  then show ?thesis by (simp add: py_round_def)
qed

lemma py_round3_unit: assumes "0 \<le> x" and "x \<le> 1" shows "py_round up x 3 \<in> {0..1}"
proof -
  let ?k = "round_nearest up (x * 1000)"
  from assms have "0 \<le> \<lfloor>x * 1000\<rfloor>" by simp
  with round_nearest_range[of "x * 1000" up] have lo: "0 \<le> ?k" by linarith
  from round_nearest_range[of "x * 1000" up] assms
  have "(of_int ?k :: rat) \<le> 1000 + 1 / 2 + tie_band" by linarith
  then have "(of_int ?k :: rat) < of_int 1001" by (simp add: tie_band_def)
  then have "?k < 1001" by (simp only: of_int_less_iff)
  then have hi: "?k \<le> 1000" by simp
  from lo hi have "(0 :: rat) \<le> of_int ?k" and "(of_int ?k :: rat) \<le> 1000"
    by simp_all
  then show ?thesis by (simp add: py_round_def field_simps)
qed

section \<open>Severity bands\<close>

text \<open>
  Claim C2, as amended. The record of an interface carries the index rounded to three
  decimals, and the report bands that rounded value: HIGH when it exceeds 0.7, MEDIUM
  from 0.4 to 0.7, LOW below 0.4. An interface whose exact index is 0.7 is MEDIUM (not
  HIGH), one whose exact index is 0.4 is MEDIUM (not LOW), and one whose exact index is
  0.7000001 is MEDIUM as well, since it is stored as 0.7. This holds whatever the
  outcome of \<^verbatim>\<open>round\<close> is for values near halfway; nothing is said about those.
\<close>

theorem severity_by_rounded_ipi:
  assumes "fst (calculate_ipi ties frames interface_name self) = Inr (Some r)"
  shows "\<exists>x. exact_ipi frames interface_name self = Inr (Some x)
     \<and> IPI r = py_round (ties interface_name ''IPI'') x 3
     \<and> (high [r] = [r]) = (7 / 10 < IPI r)
     \<and> (medium [r] = [r]) = (4 / 10 \<le> IPI r \<and> IPI r \<le> 7 / 10)
     \<and> (low [r] = [r]) = (IPI r < 4 / 10)
     \<and> (x = 7 / 10 \<or> x = 4 / 10 \<or> x = 7000001 / 10000000
          \<longrightarrow> medium [r] = [r] \<and> high [r] = [] \<and> low [r] = [])"
proof (cases "map_of (interfaces (result self)) interface_name")
  case None
  with assms show ?thesis by (simp add: calculate_ipi_def split: if_splits)
next
  case (Some iface)
  note key = stored_key[OF Some]
  with Some assms obtain sir uur umr cd ncd x where
    m: "metrics_of self frames interface_name iface = Inr (sir, uur, umr, cd, ncd, x)"
    by (auto simp: calculate_ipi_def split: sum.splits)
  with Some key assms have r: "IPI r = py_round (ties interface_name ''IPI'') x 3"
    by (auto simp: calculate_ipi_def)
  have e: "exact_ipi frames interface_name self = Inr (Some x)"
    using Some key m by (simp add: exact_ipi_def)
  let ?up = "ties interface_name ''IPI''"
  have a: "py_round ?up (7 / 10) 3 = 7 / 10"
    using py_round3_off_tie[of 700 "7 / 10" ?up] by simp
  have b: "py_round ?up (4 / 10) 3 = 4 / 10"
    using py_round3_off_tie[of 400 "4 / 10" ?up] by simp
  have c: "py_round ?up (7000001 / 10000000) 3 = 7 / 10"
    using py_round3_off_tie[of 700 "7000001 / 10000000" ?up] by simp
  have band: "medium [r] = [r] \<and> high [r] = [] \<and> low [r] = []"
    if "IPI r = 7 / 10 \<or> IPI r = 4 / 10"
    using that by (auto simp: medium_def high_def low_def)
  have "x = 7 / 10 \<or> x = 4 / 10 \<or> x = 7000001 / 10000000
          \<longrightarrow> medium [r] = [r] \<and> high [r] = [] \<and> low [r] = []"
  proof
    assume "x = 7 / 10 \<or> x = 4 / 10 \<or> x = 7000001 / 10000000"
    then have "IPI r = 7 / 10 \<or> IPI r = 4 / 10"
      unfolding r using a b c by (elim disjE) (simp_all only:, simp_all)
    then show "medium [r] = [r] \<and> high [r] = [] \<and> low [r] = []" by (rule band)
  qed
  moreover have "(high [r] = [r]) = (7 / 10 < IPI r)"
    by (simp add: high_def)
  moreover have "(medium [r] = [r]) = (4 / 10 \<le> IPI r \<and> IPI r \<le> 7 / 10)"
    by (simp add: medium_def)
  moreover have "(low [r] = [r]) = (IPI r < 4 / 10)"
    by (simp add: low_def)
  ultimately show ?thesis using e r by blast
qed

theorem severity_on_boundary_witness:
  "exact_ipi default_frames ''I'' on_boundary = Inr (Some (7 / 10))
   \<and> medium [on_boundary_record] = [on_boundary_record]
   \<and> high [on_boundary_record] = []
   \<and> exact_ipi default_frames ''I'' once_implemented = Inr (Some (4 / 10))
   \<and> medium [at_lower_boundary_record] = [at_lower_boundary_record]
   \<and> low [at_lower_boundary_record] = []"
proof -
  have r: "fst (calculate_ipi no_ties default_frames ''I'' on_boundary)
             = Inr (Some on_boundary_record)"
    by code_simp
  have x: "exact_ipi default_frames ''I'' on_boundary = Inr (Some (7 / 10))"
    by code_simp
  have r': "fst (calculate_ipi no_ties default_frames ''I'' once_implemented)
             = Inr (Some at_lower_boundary_record)"
    by code_simp
  have x': "exact_ipi default_frames ''I'' once_implemented = Inr (Some (4 / 10))"
    by code_simp
  from severity_by_rounded_ipi[OF r] x
  have "medium [on_boundary_record] = [on_boundary_record] \<and> high [on_boundary_record] = []"
    by auto
  moreover from severity_by_rounded_ipi[OF r'] x'
  have "medium [at_lower_boundary_record] = [at_lower_boundary_record]
      \<and> low [at_lower_boundary_record] = []"
    by auto
  ultimately show ?thesis using x x' by simp
qed

text \<open>
  Claim C2 as stated fails: in a project of 19 classes of which 3 implement \<open>I\<close> and one
  references it, with one of the two methods of \<open>I\<close> unused and \<open>I\<close> at the maximal
  depth, the exact index of \<open>I\<close> is 1597/2280, above 0.7, and the report lists \<open>I\<close> as
  MEDIUM and not as HIGH. The value 0.7000001 is rounded to 0.7 in the same way.
\<close>

theorem just_above_is_medium:
  "exact_ipi default_frames ''I'' just_above = Inr (Some (1597 / 2280))
   \<and> (7 / 10 :: rat) < 1597 / 2280
   \<and> fst (calculate_ipi no_ties default_frames ''I'' just_above) = Inr (Some just_above_record)
   \<and> high [just_above_record] = [] \<and> medium [just_above_record] = [just_above_record]
   \<and> py_round False (7000001 / 10000000) 3 = 7 / 10"
  by code_simp

section \<open>Ranking of the report\<close>








section \<open>The analyzed store\<close>

lemma set_update_cases: "x \<in> set (AList.update k v al) \<Longrightarrow> x = (k, v) \<or> x \<in> set al"
  by (induction al) (auto split: if_splits)

lemma length_update_le: "length (AList.update k v al) \<le> Suc (length al)"
  by (induction al) auto

lemma length_update_present: "map_of al k = Some c \<Longrightarrow> length (AList.update k v al) = length al"
  by (induction al) (auto split: if_splits)

lemma all_infos_update:
  "all_infos P ifs \<Longrightarrow> P v \<Longrightarrow> all_infos P (AList.update k v ifs)"
  unfolding all_infos_def by (auto dest: set_update_cases)

lemma all_infos_lookup: "all_infos P ifs \<Longrightarrow> map_of ifs k = Some i \<Longrightarrow> P i"
  unfolding all_infos_def by (force dest: map_of_SomeD)

lemma all_infos_weaken: "all_infos P ifs \<Longrightarrow> (\<And>i. P i \<Longrightarrow> Q i) \<Longrightarrow> all_infos Q ifs"
  unfolding all_infos_def by blast

lemma ifs_simps [simp]:
  "interfaces (result (set_interfaces ifs s)) = ifs"
  "classes (result (set_interfaces ifs s)) = classes (result s)"
  "interfaces (result (set_classes cs s)) = interfaces (result s)"
  "classes (result (set_classes cs s)) = cs"
  "max_call_depth (set_interfaces ifs s) = max_call_depth s"
  by (simp_all add: set_interfaces_def set_classes_def)

subsection \<open>Parsing\<close>

lemma fold_add_method:
  "counts_fit i \<Longrightarrow> counts_fit (fold add_method ms i) \<and> usages (fold add_method ms i) = usages i"
proof (induction ms arbitrary: i)
  case Nil
  then show ?case by simp
next
  case (Cons m ms)
  have "counts_fit (add_method m i)"
    using Cons.prems length_update_le[of m 0 "method_calls i"]
    by (simp add: counts_fit_def add_method_def)
  from Cons.IH[OF this] show ?case by (simp add: add_method_def)
qed

lemma process_interface_fresh:
  assumes "all_infos unused_yet (interfaces (result s))"
  shows "all_infos unused_yet (interfaces (result (process_interface node path s)))"
proof -
  let ?i0 = "\<lparr>name = inode_name node, file_path = path, methods = [],
              implementations = [], usages = [], method_calls = [], extends = []\<rparr>"
  have "counts_fit ?i0" by (simp add: counts_fit_def)
  from fold_add_method[OF this, of "inode_methods node"]
  have "unused_yet (fold add_method (inode_methods node) ?i0)"
    by (simp add: unused_yet_def)
  then have "\<And>es. unused_yet ((fold add_method (inode_methods node) ?i0)\<lparr>extends := es\<rparr>)"
    by (simp add: unused_yet_def counts_fit_def)
  then show ?thesis
    using assms by (simp add: process_interface_def Let_def all_infos_update)
qed

lemma process_class_interfaces [simp]:
  "interfaces (result (process_class node path s)) = interfaces (result s)"
  by (simp add: process_class_def Let_def)

lemma fold_process_class_interfaces [simp]:
  "interfaces (result (fold (\<lambda>node. process_class node path) cnodes s)) = interfaces (result s)"
  by (induction cnodes arbitrary: s) simp_all

lemma fold_process_interface_fresh:
  "all_infos unused_yet (interfaces (result s)) \<Longrightarrow>
   all_infos unused_yet (interfaces (result (fold (\<lambda>node. process_interface node path) inodes s)))"
  by (induction inodes arbitrary: s) (simp_all add: process_interface_fresh)

lemma parse_file_fresh:
  "all_infos unused_yet (interfaces (result s)) \<Longrightarrow>
   all_infos unused_yet (interfaces (result (parse_file proj path s)))"
  by (simp add: parse_file_def fold_process_interface_fresh split: option.splits prod.splits)

lemma parse_files_fresh:
  "all_infos unused_yet (interfaces (result s)) \<Longrightarrow>
   all_infos unused_yet (interfaces (result (fold (parse_file proj) files s)))"
  by (induction files arbitrary: s) (simp_all add: parse_file_fresh)

lemma init_fresh: "all_infos unused_yet (interfaces (result (init path)))"
  by (simp add: init_def all_infos_def)

subsection \<open>Implementation links\<close>

lemma add_implementation_fresh:
  "all_infos unused_yet ifs \<Longrightarrow> all_infos unused_yet (add_implementation cname n ifs)"
proof (cases "map_of ifs n")
  case None
  assume "all_infos unused_yet ifs"
  with None show ?thesis by (simp add: add_implementation_def)
next
  case (Some i)
  assume a: "all_infos unused_yet ifs"
  then have "unused_yet i" using Some by (rule all_infos_lookup)
  then have "unused_yet (i\<lparr>implementations := implementations i @ [cname]\<rparr>)"
    by (simp add: unused_yet_def counts_fit_def)
  with a Some show ?thesis by (simp add: add_implementation_def all_infos_update)
qed

lemma fold_add_implementation_fresh:
  "all_infos unused_yet ifs \<Longrightarrow> all_infos unused_yet (fold (add_implementation cname) ns ifs)"
  by (induction ns arbitrary: ifs) (simp_all add: add_implementation_fresh)

lemma find_implementations_fresh:
  assumes "all_infos unused_yet (interfaces (result s))"
  shows "all_infos unused_yet (interfaces (result (find_implementations s)))"
proof -
  have "\<And>ifs. all_infos unused_yet ifs \<Longrightarrow>
      all_infos unused_yet
        (fold (\<lambda>(cname, class_info). fold (add_implementation cname) (class_implements class_info))
           cs ifs)" for cs
    by (induction cs) (auto simp: fold_add_implementation_fresh)
  with assms show ?thesis by (simp add: find_implementations_def)
qed

lemma find_implementations_classes [simp]:
  "classes (result (find_implementations s)) = classes (result s)"
  by (simp add: find_implementations_def)


subsection \<open>Usage links\<close>

lemma unused_yet_among: "unused_yet i \<Longrightarrow> usages_among K i"
  by (simp add: unused_yet_def usages_among_def)

lemma add_usage_among:
  assumes "all_infos (usages_among K) ifs" and "cname \<in> K"
  shows "all_infos (usages_among K) (add_usage proj content cname n ifs)"
proof (cases "map_of ifs n")
  case None
  with assms show ?thesis by (simp add: add_usage_def)
next
  case (Some i)
  from assms(1) Some have "usages_among K i" by (rule all_infos_lookup)
  then have "cname \<notin> set (usages i) \<Longrightarrow> usages_among K (i\<lparr>usages := usages i @ [cname]\<rparr>)"
    using assms(2) by (simp add: usages_among_def counts_fit_def)
  with assms(1) Some show ?thesis by (simp add: add_usage_def all_infos_update)
qed

lemma fold_add_usage_among:
  "all_infos (usages_among K) ifs \<Longrightarrow> cname \<in> K \<Longrightarrow>
   all_infos (usages_among K) (fold (add_usage proj content cname) ns ifs)"
  by (induction ns arbitrary: ifs) (simp_all add: add_usage_among)

lemma class_usages_among:
  "all_infos (usages_among K) ifs \<Longrightarrow> fst c \<in> K \<Longrightarrow>
   all_infos (usages_among K) (class_usages proj c ifs)"
  by (simp add: class_usages_def fold_add_usage_among split: option.splits)

lemma fold_class_usages_among:
  "all_infos (usages_among K) ifs \<Longrightarrow> fst ` set cs \<subseteq> K \<Longrightarrow>
   all_infos (usages_among K) (fold (class_usages proj) cs ifs)"
  by (induction cs arbitrary: ifs) (simp_all add: class_usages_among)

lemma find_usages_among:
  assumes "all_infos unused_yet (interfaces (result s))"
  shows "all_infos (usages_among (fst ` set (classes (result s))))
           (interfaces (result (find_usages proj s)))"
proof -
  from assms have "all_infos (usages_among (fst ` set (classes (result s)))) (interfaces (result s))"
    by (rule all_infos_weaken) (rule unused_yet_among)
  then show ?thesis by (simp add: find_usages_def fold_class_usages_among)
qed

lemma find_usages_classes [simp]:
  "classes (result (find_usages proj s)) = classes (result s)"
  by (simp add: find_usages_def)

subsection \<open>Method call counts\<close>

lemma bump_calls_length: "length (fst (bump_calls cnt ms mc)) = length mc"
  by (induction cnt ms mc rule: bump_calls.induct)
     (auto simp: length_update_present split: option.splits)

lemma bump_interfaces_among:
  "all_infos (usages_among K) ifs \<Longrightarrow>
   all_infos (usages_among K) (fst (bump_interfaces cnt ifs))"
proof (induction cnt ifs rule: bump_interfaces.induct)
  case (1 cnt)
  then show ?case by simp
next
  case (2 cnt n info rest)
  obtain mc raised where b: "bump_calls cnt (methods info) (method_calls info) = (mc, raised)"
    by (cases "bump_calls cnt (methods info) (method_calls info)")
  have len: "length mc = length (method_calls info)"
    using bump_calls_length[of cnt "methods info" "method_calls info"] b by simp
  from "2.prems" have hd: "usages_among K info" and tl: "all_infos (usages_among K) rest"
    by (simp_all add: all_infos_def)
  from hd len have hd': "usages_among K (info\<lparr>method_calls := mc\<rparr>)"
    by (simp add: usages_among_def counts_fit_def)
  show ?case
  proof (cases raised)
    case True
    with b hd' tl show ?thesis by (simp add: all_infos_def)
  next
    case False
    with "2.IH"[OF b[symmetric] _ tl] have "all_infos (usages_among K) (fst (bump_interfaces cnt rest))"
      by simp
    with b hd' False show ?thesis by (simp add: all_infos_def split: prod.splits)
  qed
qed

lemma class_method_calls_among:
  "all_infos (usages_among K) ifs \<Longrightarrow> all_infos (usages_among K) (class_method_calls proj c ifs)"
  by (simp add: class_method_calls_def bump_interfaces_among split: option.splits)

lemma analyze_method_calls_among:
  assumes "all_infos (usages_among K) (interfaces (result s))"
  shows "all_infos (usages_among K) (interfaces (result (analyze_method_calls proj s)))"
proof -
  have "\<And>ifs. all_infos (usages_among K) ifs \<Longrightarrow>
          all_infos (usages_among K) (fold (class_method_calls proj) cs ifs)" for cs
    by (induction cs) (simp_all add: class_method_calls_among)
  with assms show ?thesis by (simp add: analyze_method_calls_def)
qed

lemma analyze_method_calls_classes [simp]:
  "classes (result (analyze_method_calls proj s)) = classes (result s)"
  by (simp add: analyze_method_calls_def)

subsection \<open>Maximal depth\<close>

lemma note_depths_facts:
  "note_depths frames ks s = Inr s' \<Longrightarrow>
     result s' = result s \<and> max_call_depth s \<le> max_call_depth s'
     \<and> (\<forall>k \<in> set ks. \<exists>d v. get_interface_depth s frames k {} = Inr (d, v)
                                \<and> d \<le> max_call_depth s')"
proof (induction ks arbitrary: s)
  case Nil
  then show ?case by simp
next
  case (Cons k ks)
  from Cons.prems obtain d v where
    q: "get_interface_depth s frames k {} = Inr (d, v)"
    by (auto split: sum.splits)
  define s1 where "s1 = (if d > max_call_depth s then s\<lparr>max_call_depth := d\<rparr> else s)"
  from Cons.prems q have rest: "note_depths frames ks s1 = Inr s'"
    by (simp add: s1_def)
  have same: "interfaces (result s1) = interfaces (result s)" and res: "result s1 = result s"
    by (simp_all add: s1_def)
  have grow: "max_call_depth s \<le> max_call_depth s1" and d: "d \<le> max_call_depth s1"
    by (simp_all add: s1_def)
  from Cons.IH[OF rest] have
    ih: "result s' = result s1" "max_call_depth s1 \<le> max_call_depth s'"
      "\<forall>k \<in> set ks. \<exists>d v. get_interface_depth s1 frames k {} = Inr (d, v)
                              \<and> d \<le> max_call_depth s'"
    by simp_all
  have "\<forall>k \<in> set ks. \<exists>d v. get_interface_depth s frames k {} = Inr (d, v)
                              \<and> d \<le> max_call_depth s'"
    using ih(3) depth_cong(1)[OF same] by simp
  moreover have "\<exists>d v. get_interface_depth s frames k {} = Inr (d, v) \<and> d \<le> max_call_depth s'"
    using q d ih(2) by auto
  ultimately show ?case using ih(1,2) res grow by simp
qed

lemma calculate_call_depths_facts:
  assumes "calculate_call_depths frames s = Inr s'"
  shows "result s' = result s"
    and "map_of (interfaces (result s)) n = Some i \<Longrightarrow>
           \<exists>d v. get_interface_depth s frames n {} = Inr (d, v) \<and> d \<le> max_call_depth s'"
proof -
  from assms have facts: "result s' = result s \<and> max_call_depth s \<le> max_call_depth s'
     \<and> (\<forall>k \<in> set (map fst (interfaces (result s))).
           \<exists>d v. get_interface_depth s frames k {} = Inr (d, v) \<and> d \<le> max_call_depth s')"
    unfolding calculate_call_depths_def by (rule note_depths_facts)
  then show "result s' = result s" by simp
  assume "map_of (interfaces (result s)) n = Some i"
  then have "n \<in> set (map fst (interfaces (result s)))"
    by (metis fst_conv image_eqI list.set_map map_of_SomeD)
  with facts show "\<exists>d v. get_interface_depth s frames n {} = Inr (d, v) \<and> d \<le> max_call_depth s'"
    by blast
qed

section \<open>Range of the metrics\<close>

lemma analyze_facts:
  assumes "analyze frames proj (init path) = Inr s"
    and "map_of (interfaces (result s)) n = Some i"
  shows "length (usages i) \<le> total_classes (result s)"
    and "count_unused i \<le> length (methods i)"
    and "\<exists>cd. call_depth_of s frames n = Inr cd \<and> 1 \<le> cd \<and> cd \<le> max_call_depth s"
proof -
  let ?s1 = "fold (parse_file proj) (java_files proj) (init path)"
  let ?s2 = "find_implementations ?s1"
  let ?s3 = "find_usages proj ?s2"
  let ?s4 = "analyze_method_calls proj ?s3"
  let ?K = "fst ` set (classes (result ?s1))"
  from assms(1) obtain s5 where s5: "calculate_call_depths frames ?s4 = Inr s5"
    and s: "s = s5\<lparr>result := (result s5)\<lparr>total_classes := length (classes (result s5))\<rparr>\<rparr>"
    by (auto simp: analyze_def Let_def split: sum.splits)
  have res5: "result s5 = result ?s4" using s5 by (rule calculate_call_depths_facts(1))
  have ifs: "interfaces (result s) = interfaces (result ?s4)"
    by (simp add: s res5)
  have cls: "total_classes (result s) = length (classes (result ?s1))"
    by (simp add: s res5)
  have mcd: "max_call_depth s = max_call_depth s5"
    by (simp add: s)
  have "all_infos unused_yet (interfaces (result ?s1))"
    by (rule parse_files_fresh) (rule init_fresh)
  then have "all_infos unused_yet (interfaces (result ?s2))"
    by (rule find_implementations_fresh)
  then have "all_infos (usages_among (fst ` set (classes (result ?s2)))) (interfaces (result ?s3))"
    by (rule find_usages_among)
  then have "all_infos (usages_among ?K) (interfaces (result ?s3))" by simp
  then have "all_infos (usages_among ?K) (interfaces (result ?s4))"
    by (rule analyze_method_calls_among)
  moreover from assms(2) have look: "map_of (interfaces (result ?s4)) n = Some i"
    by (simp only: ifs)
  ultimately have good: "usages_among ?K i" by (rule all_infos_lookup)
  then have "length (usages i) = card (set (usages i))"
    by (simp add: usages_among_def distinct_card)
  also have "\<dots> \<le> card ?K"
    using good by (intro card_mono) (simp_all add: usages_among_def)
  also have "\<dots> \<le> card (set (classes (result ?s1)))" by (rule card_image_le) simp
  also have "\<dots> \<le> length (classes (result ?s1))" by (rule card_length)
  finally show "length (usages i) \<le> total_classes (result s)" by (simp only: cls)
  have "count_unused i \<le> length (method_calls i)"
    by (simp add: count_unused_def)
  also have "\<dots> \<le> length (methods i)"
    using good by (simp add: usages_among_def counts_fit_def)
  finally show "count_unused i \<le> length (methods i)" .
  from calculate_call_depths_facts(2)[OF s5 look] obtain d v where
    q: "get_interface_depth ?s4 frames n {} = Inr (d, v)" and d: "d \<le> max_call_depth s5"
    by blast
  have "get_interface_depth s frames n {} = get_interface_depth ?s4 frames n {}"
    by (rule depth_cong(1)) (rule ifs)
  with q have q': "get_interface_depth s frames n {} = Inr (d, v)" by simp
  have "1 \<le> d" using _ q' by (rule depth_positive) simp
  with q' d show "\<exists>cd. call_depth_of s frames n = Inr cd \<and> 1 \<le> cd \<and> cd \<le> max_call_depth s"
    by (simp add: call_depth_of_def mcd)
qed

lemma sir_unit: "\<exists>v. sir_of i = Inr v \<and> v \<in> {0..1}"
proof (cases "implementations i")
  case Nil
  then show ?thesis by (simp add: sir_of_def)
next
  case (Cons c cs)
  then have "sir_of i = Inr (1 / of_nat (Suc (length cs)))"
    by (simp add: sir_of_def py_div_def Let_def)
  moreover have "(1 :: rat) / of_nat (Suc (length cs)) \<in> {0..1}"
    by (simp add: field_simps)
  ultimately show ?thesis by simp
qed

lemma uur_unit:
  assumes "length (usages i) \<le> total_classes (result s)"
  shows "\<exists>v. uur_of s i = Inr v \<and> v \<in> {0..1}"
proof -
  let ?t = "max (total_classes (result s)) 1"
  have "length (usages i) \<le> ?t" using assms by simp
  then have le: "(of_nat (length (usages i)) :: rat) \<le> of_nat ?t"
    by (simp only: of_nat_le_iff)
  have "0 < ?t" by simp
  then have pos: "(0 :: rat) < of_nat ?t" by (simp only: of_nat_0_less_iff)
  then have "uur_of s i = Inr (of_nat (length (usages i)) / of_nat ?t)"
    by (simp add: uur_of_def py_div_def Let_def)
  moreover have "(of_nat (length (usages i)) :: rat) / of_nat ?t \<in> {0..1}"
    using le pos by (simp only: atLeastAtMost_iff divide_le_eq_1_pos) simp
  ultimately show ?thesis by simp
qed

lemma umr_unit:
  assumes "count_unused i \<le> length (methods i)"
  shows "\<exists>v. umr_of i = Inr v \<and> v \<in> {0..1}"
proof (cases "length (methods i) > 0")
  case True
  from assms have "(of_nat (count_unused i) :: rat) \<le> of_nat (length (methods i))"
    by (simp only: of_nat_le_iff)
  with True show ?thesis
    by (simp add: umr_of_def py_div_def Let_def divide_le_eq_1_pos)
next
  case False
  then show ?thesis by (simp add: umr_of_def)
qed

lemma ncd_unit:
  assumes "1 \<le> cd" and "cd \<le> max_call_depth s"
  shows "\<exists>v. ncd_of s cd = Inr v \<and> v \<in> {0..1}"
proof (cases "max_call_depth s > 1")
  case True
  have a: "(1 :: rat) \<le> of_nat cd"
    using assms(1) by (metis of_nat_1 of_nat_le_iff)
  have b: "(of_nat cd :: rat) \<le> of_nat (max_call_depth s)"
    using assms(2) by (simp only: of_nat_le_iff)
  have c: "(1 :: rat) < of_nat (max_call_depth s)"
    using True by (metis of_nat_1 of_nat_less_iff)
  from c have "ncd_of s cd = Inr ((of_nat cd - 1) / (of_nat (max_call_depth s) - 1))"
    using True by (simp add: ncd_of_def py_div_def)
  moreover from a b c have "0 \<le> (of_nat cd - 1 :: rat) / (of_nat (max_call_depth s) - 1)"
    by simp
  moreover from a b c have "(of_nat cd - 1 :: rat) / (of_nat (max_call_depth s) - 1) \<le> 1"
    by (simp add: divide_le_eq_1_pos)
  ultimately show ?thesis by simp
next
  case False
  then show ?thesis by (simp add: ncd_of_def)
qed

lemma ipi_unit:
  assumes "a \<in> {0..1}" "b \<in> {0..1}" "c \<in> {0..1}" "d \<in> {0..1}"
  shows "ipi_of a b c d \<in> {0..1}"
proof -
  from assms have bounds: "0 \<le> a" "a \<le> 1" "0 \<le> b" "b \<le> 1" "0 \<le> c" "c \<le> 1" "0 \<le> d" "d \<le> 1"
    by simp_all
  have "0 \<le> 25 / 100 * a + 15 / 100 * (1 - b) + 25 / 100 * c + 35 / 100 * d"
    using bounds by (intro add_nonneg_nonneg mult_nonneg_nonneg) simp_all
  moreover have "25 / 100 * a \<le> 25 / 100" "15 / 100 * (1 - b) \<le> 15 / 100"
    "25 / 100 * c \<le> 25 / 100" "35 / 100 * d \<le> 35 / 100"
    using bounds by simp_all
  then have "25 / 100 * a + 15 / 100 * (1 - b) + 25 / 100 * c + 35 / 100 * d \<le> 1"
    by linarith
  ultimately show ?thesis
    by (simp add: ipi_of_def ALPHA_def BETA_def GAMMA_def DELTA_def)
qed

text \<open>
  Claim C6. For every interface of a store produced by \<^verbatim>\<open>analyze\<close> on a fresh analyzer
  (whatever the files, their parses, their texts and the pattern matches are), the four
  sub-metrics SIR, UUR, UMR and NCD are computed without an exception and lie in
  \<open>[0, 1]\<close>, and so does the index under the weights 0.25, 0.15, 0.25 and 0.35;
  \<^verbatim>\<open>calculate_ipi\<close> returns a record, and the five values as rounded into it lie in
  \<open>[0, 1]\<close> too.
\<close>

theorem metrics_in_unit_interval:
  assumes "analyze frames proj (init path) = Inr self"
    and "map_of (interfaces (result self)) interface_name = Some iface"
  shows "\<exists>sir uur umr cd ncd r.
       sir_of iface = Inr sir \<and> sir \<in> {0..1}
     \<and> uur_of self iface = Inr uur \<and> uur \<in> {0..1}
     \<and> umr_of iface = Inr umr \<and> umr \<in> {0..1}
     \<and> call_depth_of self frames interface_name = Inr cd
     \<and> ncd_of self cd = Inr ncd \<and> ncd \<in> {0..1}
     \<and> ipi_of sir uur umr ncd \<in> {0..1}
     \<and> fst (calculate_ipi ties frames interface_name self) = Inr (Some r)
     \<and> SIR r \<in> {0..1} \<and> UUR r \<in> {0..1} \<and> UMR r \<in> {0..1} \<and> NCD r \<in> {0..1}
     \<and> IPI r \<in> {0..1}"
proof -
  obtain sir where sir: "sir_of iface = Inr sir" "sir \<in> {0..1}"
    using sir_unit by blast
  obtain uur where uur: "uur_of self iface = Inr uur" "uur \<in> {0..1}"
    using uur_unit[OF analyze_facts(1)[OF assms]] by blast
  obtain umr where umr: "umr_of iface = Inr umr" "umr \<in> {0..1}"
    using umr_unit[OF analyze_facts(2)[OF assms]] by blast
  obtain cd where cd: "call_depth_of self frames interface_name = Inr cd"
    "1 \<le> cd" "cd \<le> max_call_depth self"
    using analyze_facts(3)[OF assms] by blast
  obtain ncd where ncd: "ncd_of self cd = Inr ncd" "ncd \<in> {0..1}"
    using ncd_unit[OF cd(2,3)] by blast
  have ipi: "ipi_of sir uur umr ncd \<in> {0..1}"
    using sir(2) uur(2) umr(2) ncd(2) by (rule ipi_unit)
  have m: "metrics_of self frames interface_name iface
             = Inr (sir, uur, umr, cd, ncd, ipi_of sir uur umr ncd)"
    using sir(1) uur(1) umr(1) cd(1) ncd(1) by (simp add: metrics_of_def bind_result_def)
  define r where "r = \<lparr>interface = interface_name, IC = length (implementations iface),
      SIR = py_round (ties interface_name ''SIR'') sir 3, IU = length (usages iface),
      UUR = py_round (ties interface_name ''UUR'') uur 3,
      total_methods = length (methods iface), unused_methods = count_unused iface,
      UMR = py_round (ties interface_name ''UMR'') umr 3, CallDepth = cd,
      NCD = py_round (ties interface_name ''NCD'') ncd 3,
      IPI = py_round (ties interface_name ''IPI'') (ipi_of sir uur umr ncd) 3\<rparr>"
  have "fst (calculate_ipi ties frames interface_name self) = Inr (Some r)"
    using assms(2) stored_key[OF assms(2)] m by (simp add: calculate_ipi_def r_def)
  moreover have "SIR r \<in> {0..1}" "UUR r \<in> {0..1}" "UMR r \<in> {0..1}" "NCD r \<in> {0..1}"
    "IPI r \<in> {0..1}"
    using sir(2) uur(2) umr(2) ncd(2) ipi py_round3_unit by (simp_all add: r_def)
  ultimately show ?thesis using sir uur umr cd(1) ncd ipi by blast
qed

theorem metrics_in_unit_interval_witness:
  "sir_of on_boundary_info = Inr 1 \<and> uur_of on_boundary on_boundary_info = Inr (1 / 3)
   \<and> umr_of on_boundary_info = Inr 0
   \<and> call_depth_of on_boundary default_frames ''I'' = Inr 2 \<and> ncd_of on_boundary 2 = Inr 1
   \<and> (\<exists>r. fst (calculate_ipi no_ties default_frames ''I'' on_boundary) = Inr (Some r)
          \<and> SIR r \<in> {0..1} \<and> UUR r \<in> {0..1} \<and> UMR r \<in> {0..1} \<and> NCD r \<in> {0..1}
          \<and> IPI r \<in> {0..1})"
proof -
  have produced: "analyze default_frames (sample_project 3 0 []) (init ''p'') = Inr on_boundary"
    by code_simp
  have look: "map_of (interfaces (result on_boundary)) ''I'' = Some on_boundary_info"
    by code_simp
  have "sir_of on_boundary_info = Inr 1" by code_simp
  moreover have "uur_of on_boundary on_boundary_info = Inr (1 / 3)" by code_simp
  moreover have "umr_of on_boundary_info = Inr 0" by code_simp
  moreover have "call_depth_of on_boundary default_frames ''I'' = Inr 2" by code_simp
  moreover have "ncd_of on_boundary 2 = Inr 1" by code_simp
  ultimately show ?thesis
    using metrics_in_unit_interval[OF produced look, of no_ties] by auto
qed


end
